theory Spec2Isabelle
  imports Complex_Main
begin

section \<open>Data model\<close>

text \<open>
  Python strings are modelled as \<^typ>\<open>string\<close>, one \<^typ>\<open>char\<close> per code point
  (the code points U+0000 to U+00FF, which is what a \<^typ>\<open>char\<close> can hold).
  The three emphasis styles are the string tags \<^verbatim>\<open>"normal"\<close>, \<^verbatim>\<open>"bold"\<close>
  and \<^verbatim>\<open>"italic"\<close> of the source; a run is the pair \<^verbatim>\<open>(text, style)\<close>.
\<close>

datatype style = Normal | Bold | Italic

type_synonym run = "string \<times> style"

text \<open>A wrapped line is a list of \<^verbatim>\<open>(token, style)\<close> pairs.\<close>

type_synonym line = "(string \<times> style) list"

text \<open>The exceptions the modelled code raises, with their messages.\<close>

datatype error = ValueError string | AttributeError string

section \<open>Python string primitives\<close>

text \<open>\<^verbatim>\<open>text.startswith(pre, i)\<close> for a start index \<open>i \<ge> 0\<close>.\<close>

definition startswith :: "string \<Rightarrow> string \<Rightarrow> nat \<Rightarrow> bool" where
  "startswith text pre i = (i \<le> length text \<and> take (length pre) (drop i text) = pre)"

text \<open>
  The offset of the first occurrence of \<open>sub\<close> in a string, the search of
  \<^verbatim>\<open>str.find\<close> on the part of the text after the start index.
\<close>

fun find_offset :: "string \<Rightarrow> string \<Rightarrow> nat option" where
  "find_offset sub [] = (if sub = [] then Some 0 else None)"
| "find_offset sub (c # cs) =
     (if take (length sub) (c # cs) = sub then Some 0
      else map_option Suc (find_offset sub cs))"

text \<open>\<^verbatim>\<open>text.find(sub, start)\<close>; the result \<^verbatim>\<open>-1\<close> of Python is \<open>None\<close>.\<close>

definition str_find :: "string \<Rightarrow> string \<Rightarrow> nat \<Rightarrow> nat option" where
  "str_find text sub start =
     (if start \<le> length text
      then map_option (\<lambda>k. start + k) (find_offset sub (drop start text))
      else None)"

text \<open>The slice \<^verbatim>\<open>text[a:b]\<close> for indices \<open>a, b \<ge> 0\<close>.\<close>

definition slice :: "string \<Rightarrow> nat \<Rightarrow> nat \<Rightarrow> string" where
  "slice text a b = take (b - a) (drop a text)"

section \<open>Rich-text tokenizer\<close>

text \<open>
  The inner loop of \<^verbatim>\<open>tokenize_md\<close>:
  \<^verbatim>\<open>while j < len(text) and not text.startswith("**", j) and text[j] != "*": j += 1\<close>.
\<close>

function scan_normal :: "string \<Rightarrow> nat \<Rightarrow> nat" where
  "scan_normal text j =
     (if j < length text \<and> \<not> startswith text ''**'' j \<and> text ! j \<noteq> CHR ''*''
      then scan_normal text (Suc j) else j)"
  by pat_completeness auto
termination
  by (relation "measure (\<lambda>(text, j). length text - j)") auto

declare scan_normal.simps [simp del]

text \<open>
  The outer loop \<^verbatim>\<open>while i < len(text)\<close> of \<^verbatim>\<open>tokenize_md\<close>, with the variables
  \<open>i\<close> and \<open>runs\<close> as arguments. The loop is not known to end, so it is a partial
  function: the value \<open>None\<close> says that the loop never returns.
\<close>

partial_function (option) tokenize_loop :: "string \<Rightarrow> nat \<Rightarrow> run list \<Rightarrow> run list option" where
  "tokenize_loop text i runs =
     (if i < length text then
        (case (if startswith text ''**'' i then str_find text ''**'' (i + 2) else None) of
           Some j \<Rightarrow> tokenize_loop text (j + 2) (runs @ [(slice text (i + 2) j, Bold)])
         | None \<Rightarrow>
        (case (if startswith text ''*'' i then str_find text ''*'' (i + 1) else None) of
           Some j \<Rightarrow> tokenize_loop text (j + 1) (runs @ [(slice text (i + 1) j, Italic)])
         | None \<Rightarrow>
           (let j = scan_normal text i
            in tokenize_loop text j (runs @ [(slice text i j, Normal)]))))
      else Some runs)"

declare tokenize_loop.simps [code]

text \<open>
  \<^verbatim>\<open>tokenize_md(text)\<close>. The line \<^verbatim>\<open>text = text or ""\<close> leaves a string as it is
  (it only replaces \<^verbatim>\<open>None\<close> by the empty string).
\<close>

definition tokenize_md :: "string \<Rightarrow> run list option" where
  "tokenize_md text = tokenize_loop text 0 []"


section \<open>Timestamp parser\<close>

text \<open>\<^verbatim>\<open>ts.replace(":", "_")\<close>.\<close>

definition replace_colon :: "string \<Rightarrow> string" where
  "replace_colon ts = map (\<lambda>c. if c = CHR '':'' then CHR ''_'' else c) ts"

text \<open>\<^verbatim>\<open>s.split(sep)\<close> for a separator of one character; the result is never empty.\<close>

fun split_on :: "char \<Rightarrow> string \<Rightarrow> string list" where
  "split_on sep [] = [[]]"
| "split_on sep (c # cs) =
     (if c = sep then [] # split_on sep cs
      else (case split_on sep cs of
              [] \<Rightarrow> [[c]]
            | p # ps \<Rightarrow> (c # p) # ps))"

text \<open>
  \<^verbatim>\<open>str.isdigit\<close>: on the code points below 256 the digits are \<^verbatim>\<open>0\<close> to
  \<^verbatim>\<open>9\<close> and the superscripts U+00B2, U+00B3 and U+00B9. Only the first ten are
  decimal digits, the ones \<^verbatim>\<open>int\<close> accepts.
\<close>

definition is_decimal_char :: "char \<Rightarrow> bool" where
  "is_decimal_char c = (c \<in> set ''0123456789'')"

definition is_digit_char :: "char \<Rightarrow> bool" where
  "is_digit_char c = (is_decimal_char c \<or> c \<in> set [CHR 0xB2, CHR 0xB3, CHR 0xB9])"

definition isdigit :: "string \<Rightarrow> bool" where
  "isdigit s = (s \<noteq> [] \<and> list_all is_digit_char s)"

definition digit_value :: "char \<Rightarrow> int" where
  "digit_value c = int (of_char c) - 48"

text \<open>
  \<^verbatim>\<open>int(s)\<close> on a string for which \<^verbatim>\<open>s.isdigit()\<close> holds, the only strings
  \<^verbatim>\<open>parse_ts\<close> passes to it: the value in base 10 when every character is a decimal
  digit, and \<^verbatim>\<open>ValueError\<close> otherwise. The limit that recent interpreters put
  on the number of digits of a literal is left out.
\<close>

definition int_of_digits :: "string \<Rightarrow> error + int" where
  "int_of_digits s =
     (if list_all is_decimal_char s
      then Inr (foldl (\<lambda>a c. 10 * a + digit_value c) 0 s)
      else Inl (ValueError ''invalid literal for int() with base 10''))"

text \<open>
  \<^verbatim>\<open>parse_ts(ts)\<close>:
  \<^verbatim>\<open>m, s = (ts.split("_") + ["0","0"])[:2]\<close>, then
  \<^verbatim>\<open>(int(m) if m.isdigit() else 0) * 60 + (int(s) if s.isdigit() else 0)\<close>.
\<close>

definition parse_ts :: "string \<Rightarrow> error + int" where
  "parse_ts ts =
     (case take 2 (split_on CHR ''_'' (replace_colon ts) @ [''0'', ''0'']) of
        [m, s] \<Rightarrow>
          (case (if isdigit m then int_of_digits m else Inr 0) of
             Inl e \<Rightarrow> Inl e
           | Inr mv \<Rightarrow>
               (case (if isdigit s then int_of_digits s else Inr 0) of
                  Inl e \<Rightarrow> Inl e
                | Inr sv \<Rightarrow> Inr (mv * 60 + sv)))
      | _ \<Rightarrow> Inl (ValueError ''not enough values to unpack''))"

section \<open>Duration deriver\<close>

text \<open>Python floats are taken as real numbers: sums and differences are exact.\<close>

definition MIN_SLIDE_SEC :: real where
  "MIN_SLIDE_SEC = 1"

text \<open>
  \<^verbatim>\<open>durations_from_timestamps(ts, audio_len)\<close>: the loop over \<^verbatim>\<open>enumerate(ts)\<close>
  appends one duration for each index \<open>i\<close>.
\<close>

definition durations_from_timestamps :: "real list \<Rightarrow> real \<Rightarrow> real list" where
  "durations_from_timestamps ts audio_len =
     map (\<lambda>i. let t = ts ! i;
                  d = (if int i < int (length ts) - 1 then ts ! (i + 1) - t else audio_len - t)
              in max MIN_SLIDE_SEC d)
         [0..<length ts]"

section \<open>Fonts and text measurement\<close>

text \<open>
  A font object is what \<^verbatim>\<open>mkfont\<close> returns: \<^verbatim>\<open>ImageFont.truetype(path, size)\<close>,
  or \<^verbatim>\<open>ImageFont.load_default()\<close> when no font file was found. The dictionaries
  \<^verbatim>\<open>f_expl\<close> and \<^verbatim>\<open>f_txt\<close> hold one font for each style.
\<close>

datatype font = TrueType string int | DefaultFont

record fonts =
  f_normal :: font
  f_bold :: font
  f_italic :: font

fun font_of :: "fonts \<Rightarrow> style \<Rightarrow> font" where
  "font_of fs Normal = f_normal fs"
| "font_of fs Bold = f_bold fs"
| "font_of fs Italic = f_italic fs"

text \<open>
  What the code takes from outside: the font files found at start-up (\<^verbatim>\<open>FONT_REG\<close>,
  \<^verbatim>\<open>FONT_BOLD\<close>, \<^verbatim>\<open>FONT_ITAL\<close>; \<open>None\<close> when no candidate exists), the
  \<^verbatim>\<open>size\<close> attribute of the default font (\<open>None\<close> when it has none), the
  measurement \<^verbatim>\<open>draw.textlength(t, font=f)\<close> (\<open>None\<close> when it raises), and
  whether the image file of a slide index exists.
\<close>

record pil =
  FONT_REG :: "string option"
  FONT_BOLD :: "string option"
  FONT_ITAL :: "string option"
  default_size :: "int option"
  textlength :: "string \<Rightarrow> font \<Rightarrow> real option"
  image_isfile :: "nat \<Rightarrow> bool"

definition mkfont :: "string option \<Rightarrow> int \<Rightarrow> font" where
  "mkfont path sz = (case path of Some p \<Rightarrow> TrueType p sz | None \<Rightarrow> DefaultFont)"

text \<open>The attribute \<^verbatim>\<open>font.size\<close>; \<open>None\<close> when \<^verbatim>\<open>hasattr(font, "size")\<close> is false.\<close>

fun font_size :: "pil \<Rightarrow> font \<Rightarrow> int option" where
  "font_size env (TrueType p sz) = Some sz"
| "font_size env DefaultFont = default_size env"

text \<open>The three fonts built at the head of each pass of the layout loop.\<close>

definition mkfonts :: "pil \<Rightarrow> int \<Rightarrow> fonts" where
  "mkfonts env sz =
     \<lparr>f_normal = mkfont (FONT_REG env) sz,
      f_bold = mkfont (FONT_BOLD env) sz,
      f_italic = mkfont (FONT_ITAL env) sz\<rparr>"

text \<open>
  The local function \<^verbatim>\<open>seg_w\<close> of \<^verbatim>\<open>wrap_rich\<close>: the measured width, and when the
  measurement raises the estimate \<^verbatim>\<open>len(t) * fonts["normal"].size * 0.6\<close>, which
  itself raises \<^verbatim>\<open>AttributeError\<close> on a font without a size.
\<close>

definition seg_w :: "pil \<Rightarrow> fonts \<Rightarrow> string \<Rightarrow> style \<Rightarrow> error + real" where
  "seg_w env fs t st =
     (case textlength env t (font_of fs st) of
        Some w \<Rightarrow> Inr w
      | None \<Rightarrow>
          (case font_size env (font_of fs Normal) of
             Some sz \<Rightarrow> Inr (real (length t) * real_of_int sz * (6 / 10))
           | None \<Rightarrow> Inl (AttributeError ''size'')))"

section \<open>Word wrapper\<close>

text \<open>
  The whitespace of \<^verbatim>\<open>str.isspace\<close> and of the regular expression class
  \<^verbatim>\<open>\s\<close>, on the code points below 256.
\<close>

definition is_space_char :: "char \<Rightarrow> bool" where
  "is_space_char c =
     (c \<in> set [CHR 0x09, CHR 0x0A, CHR 0x0B, CHR 0x0C, CHR 0x0D, CHR 0x1C, CHR 0x1D,
               CHR 0x1E, CHR 0x1F, CHR 0x20, CHR 0x85, CHR 0xA0])"

definition isspace :: "string \<Rightarrow> bool" where
  "isspace s = (s \<noteq> [] \<and> list_all is_space_char s)"

text \<open>
  \<^verbatim>\<open>re.findall(r"\S+|\s+", txt)\<close>: the maximal runs of non-space characters and of
  space characters, in order.
\<close>

function re_tokens :: "string \<Rightarrow> string list" where
  "re_tokens [] = []"
| "re_tokens (c # cs) =
     (if is_space_char c
      then takeWhile is_space_char (c # cs) # re_tokens (dropWhile is_space_char (c # cs))
      else takeWhile (\<lambda>x. \<not> is_space_char x) (c # cs)
             # re_tokens (dropWhile (\<lambda>x. \<not> is_space_char x) (c # cs)))"
  by pat_completeness auto
termination
  by (relation "measure length") (auto simp: less_Suc_eq_le length_dropWhile_le)

text \<open>
  The inner loop of \<^verbatim>\<open>wrap_rich\<close> over the tokens of one run, on the variables
  \<^verbatim>\<open>lines\<close>, \<^verbatim>\<open>cur\<close> and \<^verbatim>\<open>cur_w\<close>. Widths are added and compared as real
  numbers; the rounding of floating-point sums, which can move a line break when a
  line fills the width exactly, is left out.
\<close>

fun wrap_tokens ::
  "pil \<Rightarrow> fonts \<Rightarrow> int \<Rightarrow> style \<Rightarrow> string list \<Rightarrow> line list \<times> line \<times> real
     \<Rightarrow> error + (line list \<times> line \<times> real)" where
  "wrap_tokens env fs max_w st [] state = Inr state"
| "wrap_tokens env fs max_w st (tok # toks) (lines, cur, cur_w) =
     (case seg_w env fs tok st of
        Inl e \<Rightarrow> Inl e
      | Inr w \<Rightarrow>
          if cur_w + w \<le> real_of_int max_w \<or> (isspace tok \<and> cur = [])
          then wrap_tokens env fs max_w st toks (lines, cur @ [(tok, st)], cur_w + w)
          else (case seg_w env fs tok st of
                  Inl e \<Rightarrow> Inl e
                | Inr w' \<Rightarrow> wrap_tokens env fs max_w st toks (lines @ [cur], [(tok, st)], w')))"

text \<open>The outer loop of \<^verbatim>\<open>wrap_rich\<close> over the runs.\<close>

fun wrap_runs ::
  "pil \<Rightarrow> fonts \<Rightarrow> int \<Rightarrow> run list \<Rightarrow> line list \<times> line \<times> real
     \<Rightarrow> error + (line list \<times> line \<times> real)" where
  "wrap_runs env fs max_w [] state = Inr state"
| "wrap_runs env fs max_w ((tx, st) # runs) state =
     (case wrap_tokens env fs max_w st (re_tokens tx) state of
        Inl e \<Rightarrow> Inl e
      | Inr state' \<Rightarrow> wrap_runs env fs max_w runs state')"

text \<open>
  \<^verbatim>\<open>wrap_rich(draw, runs, fonts, max_w)\<close>; the last statement is
  \<^verbatim>\<open>if cur: lines.append(cur)\<close>.
\<close>

definition wrap_rich :: "pil \<Rightarrow> run list \<Rightarrow> fonts \<Rightarrow> int \<Rightarrow> error + line list" where
  "wrap_rich env runs fs max_w =
     (case wrap_runs env fs max_w runs ([], [], 0) of
        Inl e \<Rightarrow> Inl e
      | Inr (lines, cur, cur_w) \<Rightarrow> Inr (if cur \<noteq> [] then lines @ [cur] else lines))"

section \<open>Auto-fit layout engine\<close>

definition W :: int where "W = 854"
definition H :: int where "H = 480"
definition LEFT_W :: int where "LEFT_W = W div 3"
definition RIGHT_W :: int where "RIGHT_W = W - LEFT_W"
definition PADDING :: int where "PADDING = 14"
definition MAX_LINES :: nat where "MAX_LINES = 4"
definition min_size :: int where "min_size = 12"

text \<open>
  \<^verbatim>\<open>int(x * c)\<close> for an integer \<open>x\<close> and a decimal constant \<open>c = n / d\<close>: the
  product is taken exactly and truncated towards zero. For the constants of the
  code (\<^verbatim>\<open>0.94\<close>, \<^verbatim>\<open>0.90\<close>, \<^verbatim>\<open>1.3\<close>, \<^verbatim>\<open>1.25\<close>) this is the value of the
  floating-point expression for every \<open>x\<close> from 0 to 2149.
\<close>

definition int_scaled :: "int \<Rightarrow> int \<Rightarrow> int \<Rightarrow> int" where
  "int_scaled x n d = (if 0 \<le> x then (x * n) div d else - ((- x * n) div d))"

text \<open>
  What the layout returns: the dictionary of \<^verbatim>\<open>layout_right_column\<close>, and the two
  font sizes the loop ended with (the variables \<^verbatim>\<open>expl_size\<close> and
  \<^verbatim>\<open>lines_size\<close>, which \<^verbatim>\<open>render_slide_image\<close> goes on to use).
\<close>

record layout =
  out_expl_size :: int
  out_lines_size :: int
  out_f_expl :: fonts
  out_f_txt :: fonts
  out_lh_expl :: int
  out_lh_txt :: int
  out_expl_wrapped :: "line list"
  out_blocks :: "line list list"
  out_expl_h :: int
  out_start_y :: int

text \<open>
  The loop \<^verbatim>\<open>for raw in (raw_lines or [])[:MAX_LINES]\<close> on the variables
  \<^verbatim>\<open>blocks\<close> and \<^verbatim>\<open>text_h\<close>. Tokenizing may never return (\<open>None\<close>) and wrapping
  may raise.
\<close>

fun wrap_blocks ::
  "pil \<Rightarrow> fonts \<Rightarrow> int \<Rightarrow> int \<Rightarrow> string list \<Rightarrow> line list list \<times> int
     \<Rightarrow> (error + line list list \<times> int) option" where
  "wrap_blocks env f_txt iw lh_txt [] acc = Some (Inr acc)"
| "wrap_blocks env f_txt iw lh_txt (raw # raws) (blocks, text_h) =
     (case tokenize_md raw of
        None \<Rightarrow> None
      | Some runs \<Rightarrow>
          (case wrap_rich env runs f_txt iw of
             Inl e \<Rightarrow> Some (Inl e)
           | Inr w \<Rightarrow>
               wrap_blocks env f_txt iw lh_txt raws
                 (blocks @ [w], text_h + lh_txt * max 1 (int (length w)))))"

text \<open>
  One pass of the body of \<^verbatim>\<open>while True\<close>, up to the test: the dictionary that
  would be returned, and \<^verbatim>\<open>total_h\<close>.
\<close>

definition layout_pass ::
  "pil \<Rightarrow> int \<Rightarrow> int \<Rightarrow> string \<Rightarrow> string list \<Rightarrow> int \<Rightarrow> int
     \<Rightarrow> (error + layout \<times> int) option" where
  "layout_pass env iw ih explanation raw_lines expl_size lines_size =
     (let f_expl = mkfonts env expl_size;
          f_txt = mkfonts env lines_size;
          lh_expl = (if font_size env (f_normal f_expl) \<noteq> None
                     then int_scaled expl_size 13 10 else 24);
          lh_txt = (if font_size env (f_normal f_txt) \<noteq> None
                    then int_scaled lines_size 125 100 else 20)
      in case tokenize_md explanation of
           None \<Rightarrow> None
         | Some runs \<Rightarrow>
             (case wrap_rich env runs f_expl (iw - 20) of
                Inl e \<Rightarrow> Some (Inl e)
              | Inr expl_wrapped \<Rightarrow>
                  (let expl_h = lh_expl * max 1 (int (length expl_wrapped)) + 16
                   in case wrap_blocks env f_txt iw lh_txt (take MAX_LINES raw_lines) ([], 0) of
                        None \<Rightarrow> None
                      | Some (Inl e) \<Rightarrow> Some (Inl e)
                      | Some (Inr (blocks, text_h)) \<Rightarrow>
                          (let total_h = expl_h + 10 + text_h
                           in Some (Inr
                                (\<lparr>out_expl_size = expl_size,
                                  out_lines_size = lines_size,
                                  out_f_expl = f_expl,
                                  out_f_txt = f_txt,
                                  out_lh_expl = lh_expl,
                                  out_lh_txt = lh_txt,
                                  out_expl_wrapped = expl_wrapped,
                                  out_blocks = blocks,
                                  out_expl_h = expl_h,
                                  out_start_y = max 0 ((ih - total_h) div 2)\<rparr>,
                                 total_h))))))"

text \<open>
  The loop \<^verbatim>\<open>while True\<close> of \<^verbatim>\<open>layout_right_column\<close> (and, with the same body,
  of \<^verbatim>\<open>render_slide_image\<close>) on the variables \<^verbatim>\<open>expl_size\<close> and
  \<^verbatim>\<open>lines_size\<close>.
\<close>

partial_function (option) layout_loop ::
  "pil \<Rightarrow> int \<Rightarrow> int \<Rightarrow> string \<Rightarrow> string list \<Rightarrow> int \<Rightarrow> int \<Rightarrow> (error + layout) option" where
  "layout_loop env iw ih explanation raw_lines expl_size lines_size =
     (case layout_pass env iw ih explanation raw_lines expl_size lines_size of
        None \<Rightarrow> None
      | Some (Inl e) \<Rightarrow> Some (Inl e)
      | Some (Inr (result, total_h)) \<Rightarrow>
          if total_h \<le> ih \<or> (expl_size \<le> min_size \<and> lines_size \<le> min_size)
          then Some (Inr result)
          else layout_loop env iw ih explanation raw_lines
                 (max min_size (int_scaled expl_size 94 100))
                 (max min_size (int_scaled lines_size 94 100)))"

declare layout_loop.simps [code]

definition layout_right_column ::
  "pil \<Rightarrow> int \<Rightarrow> int \<Rightarrow> string \<Rightarrow> string list \<Rightarrow> int \<Rightarrow> (error + layout) option" where
  "layout_right_column env iw ih explanation raw_lines base_size =
     layout_loop env iw ih explanation raw_lines
       (int_scaled base_size 100 100) (int_scaled base_size 90 100)"

section \<open>Animated slide composer\<close>

definition CALLOUT_DELAY :: real where "CALLOUT_DELAY = 20 / 100"
definition TEXT_START_DELAY :: real where "TEXT_START_DELAY = 35 / 10"
definition TEXT_STAGGER :: real where "TEXT_STAGGER = 140 / 100"

text \<open>
  A layer of the composite: its \<^verbatim>\<open>set_start\<close> time and its \<^verbatim>\<open>set_duration\<close>
  length. The pixels, positions and fades of a layer are left out.
\<close>

record clip =
  clip_start :: real
  clip_duration :: real

record slide =
  s_index :: nat
  s_timestamp :: int
  s_explanation :: string
  s_slide_content :: string

text \<open>
  The callout layer:
  \<^verbatim>\<open>rgba_to_clip(call_rgba, max(0.1, duration - CALLOUT_DELAY)).set_start(CALLOUT_DELAY)\<close>.
\<close>

definition callout_clip :: "real \<Rightarrow> clip" where
  "callout_clip duration =
     \<lparr>clip_start = CALLOUT_DELAY,
      clip_duration = max (1 / 10) (duration - CALLOUT_DELAY)\<rparr>"

text \<open>The layer of the text block with index \<open>idx\<close> in \<^verbatim>\<open>enumerate(right["blocks"])\<close>.\<close>

definition text_clip :: "real \<Rightarrow> nat \<Rightarrow> clip" where
  "text_clip duration idx =
     (let delay = TEXT_START_DELAY + real idx * TEXT_STAGGER;
          dur_remain = max (1 / 10) (duration - delay)
      in \<lparr>clip_start = delay, clip_duration = dur_remain\<rparr>)"

text \<open>
  \<^verbatim>\<open>build_slide_clip(slide, duration, root, pres_id, base_font_size)\<close>: the list
  \<^verbatim>\<open>layers\<close> handed to \<^verbatim>\<open>CompositeVideoClip\<close>. Decoding the image is outside
  the model: an image file that exists is taken to open (\<^verbatim>\<open>Image.open\<close> raises on
  one that does not decode, and the function has no handler for it).
\<close>

definition build_slide_clip :: "pil \<Rightarrow> slide \<Rightarrow> real \<Rightarrow> int \<Rightarrow> (error + clip list) option" where
  "build_slide_clip env sl duration base_font_size =
     (let iw = RIGHT_W - 2 * PADDING;
          ih = H - 2 * PADDING;
          base = \<lparr>clip_start = 0, clip_duration = duration\<rparr>;
          img_layer = (if image_isfile env (s_index sl + 1)
                       then [\<lparr>clip_start = 0, clip_duration = duration\<rparr>] else [])
      in case layout_right_column env iw ih (s_explanation sl)
                (take MAX_LINES (drop 1 (split_on CHR 0x0A (s_slide_content sl))))
                base_font_size of
           None \<Rightarrow> None
         | Some (Inl e) \<Rightarrow> Some (Inl e)
         | Some (Inr right) \<Rightarrow>
             Some (Inr ([base] @ img_layer @ [callout_clip duration]
                        @ map (text_clip duration) [0..<length (out_blocks right)])))"

section \<open>Assembly (animated variant)\<close>

text \<open>
  An entry of the script; \<open>e_timestamp\<close> is \<open>None\<close> when the key is missing
  (\<^verbatim>\<open>e.get("timestamp", "0_00")\<close>).
\<close>

record entry =
  e_timestamp :: "string option"
  e_explanation :: string
  e_slide_content :: string

text \<open>The loop \<^verbatim>\<open>for i, e in enumerate(entries)\<close> that builds \<^verbatim>\<open>slides\<close>.\<close>

fun make_slides :: "nat \<Rightarrow> entry list \<Rightarrow> error + slide list" where
  "make_slides i [] = Inr []"
| "make_slides i (e # es) =
     (case parse_ts (case e_timestamp e of Some t \<Rightarrow> t | None \<Rightarrow> ''0_00'') of
        Inl err \<Rightarrow> Inl err
      | Inr t \<Rightarrow>
          (case make_slides (Suc i) es of
             Inl err \<Rightarrow> Inl err
           | Inr ss \<Rightarrow>
               Inr (\<lparr>s_index = i, s_timestamp = t, s_explanation = e_explanation e,
                     s_slide_content = e_slide_content e\<rparr> # ss)))"

text \<open>The list comprehension that renders one clip for each slide, in order.\<close>

fun build_clips :: "pil \<Rightarrow> int \<Rightarrow> (slide \<times> real) list \<Rightarrow> (error + clip list list) option" where
  "build_clips env base_font_size [] = Some (Inr [])"
| "build_clips env base_font_size ((sl, dur) # rest) =
     (case build_slide_clip env sl dur base_font_size of
        None \<Rightarrow> None
      | Some (Inl e) \<Rightarrow> Some (Inl e)
      | Some (Inr c) \<Rightarrow>
          (case build_clips env base_font_size rest of
             None \<Rightarrow> None
           | Some (Inl e) \<Rightarrow> Some (Inl e)
           | Some (Inr cs) \<Rightarrow> Some (Inr (c # cs))))"

text \<open>
  \<^verbatim>\<open>main\<close> of the animated variant, from the entries of the script and the length
  \<^verbatim>\<open>alen\<close> of the audio to the rendered clips. Reading the script and the audio
  file, and encoding the video, are outside the model.
\<close>

definition main_animated :: "pil \<Rightarrow> entry list \<Rightarrow> real \<Rightarrow> int \<Rightarrow> (error + clip list list) option" where
  "main_animated env entries alen font_size_arg =
     (if entries = [] then Some (Inl (ValueError ''No entries in JSON.''))
      else case make_slides 0 entries of
             Inl e \<Rightarrow> Some (Inl e)
           | Inr slides0 \<Rightarrow>
               (let slides = sort_key s_timestamp slides0;
                    ts = map s_timestamp slides
                in if ts \<noteq> [] \<and> alen < real_of_int (ts ! 0)
                   then Some (Inl (ValueError
                          ''First slide timestamp is beyond the audio duration.''))
                   else build_clips env font_size_arg
                          (zip slides (durations_from_timestamps (map real_of_int ts) alen))))"

section \<open>A sample environment\<close>

text \<open>
  For the worked examples: the three font files are found, and every character is
  half as wide as the font size.
\<close>

definition sample_env :: pil where
  "sample_env =
     \<lparr>FONT_REG = Some ''DejaVuSans.ttf'',
      FONT_BOLD = Some ''DejaVuSans-Bold.ttf'',
      FONT_ITAL = Some ''DejaVuSans-Oblique.ttf'',
      default_size = None,
      textlength = (\<lambda>t f. case f of
                              TrueType p sz \<Rightarrow> Some (real (length t) * real_of_int sz / 2)
                            | DefaultFont \<Rightarrow> Some (real (length t) * 6)),
      image_isfile = (\<lambda>i. False)\<rparr>"


section \<open>The block height in the words of the specification\<close>


section \<open>The tokenizer on an unterminated marker\<close>

lemma find_offset_absent:
  "c \<notin> set xs \<Longrightarrow> find_offset (c # s) xs = None"
  by (induction xs) auto

lemma str_find_absent:
  "c \<notin> set (drop start text) \<Longrightarrow> str_find text (c # s) start = None"
  by (simp add: str_find_def find_offset_absent)

lemma startswith_star2_next:
  assumes "startswith text ''**'' i"
  shows "CHR ''*'' \<in> set (drop (Suc i) text)"
proof -
  from assms have t: "take (Suc (Suc 0)) (drop i text) = ''**''"
    by (simp add: startswith_def)
  then have "drop i text \<noteq> []" by auto
  then obtain x rest where d: "drop i text = x # rest"
    by (cases "drop i text") auto
  with t have "take (Suc 0) rest = ''*''" by simp
  then have "CHR ''*'' \<in> set rest" by (cases rest) auto
  moreover have "drop (Suc i) text = rest"
    using d by (metis drop_Suc tl_drop list.sel(3))
  ultimately show ?thesis by simp
qed

lemma scan_normal_at_star:
  "text ! i = CHR ''*'' \<Longrightarrow> scan_normal text i = i"
  by (simp add: scan_normal.simps)

text \<open>
  A position that holds the last \<open>*\<close> of the text is a fixed point of the loop: both
  searches for a closing marker fail, the scan of the normal run stops where it
  starts, and the next pass begins at the same index. No result is ever returned
  from there.
\<close>

lemma tokenize_loop_stuck_aux:
  assumes "tokenize_loop text i runs = Some y"
  shows "\<not> (i < length text \<and> text ! i = CHR ''*'' \<and> CHR ''*'' \<notin> set (drop (Suc i) text))"
proof (rule tokenize_loop.raw_induct
    [where P = "\<lambda>tx i runs y.
        \<not> (i < length tx \<and> tx ! i = CHR ''*'' \<and> CHR ''*'' \<notin> set (drop (Suc i) tx))",
     OF _ assms], goal_cases)
  case (1 loop tx i runs y)
  show ?case
  proof
    assume st: "i < length tx \<and> tx ! i = CHR ''*'' \<and> CHR ''*'' \<notin> set (drop (Suc i) tx)"
    then have a: "\<not> startswith tx ''**'' i"
      using startswith_star2_next by blast
    from st have b: "str_find tx ''*'' (i + 1) = None"
      by (simp add: str_find_absent)
    from st have c: "scan_normal tx i = i"
      by (simp add: scan_normal_at_star)
    from 1(2) st a b c have "loop tx i (runs @ [(slice tx i i, Normal)]) = Some y"
      by (simp split: if_splits)
    from 1(1)[OF this] st show False by simp
  qed
qed

lemma tokenize_loop_stuck:
  assumes "i < length text" "text ! i = CHR ''*''" "CHR ''*'' \<notin> set (drop (Suc i) text)"
  shows "tokenize_loop text i runs = None"
proof (cases "tokenize_loop text i runs")
  case None
  then show ?thesis .
next
  case (Some y)
  from tokenize_loop_stuck_aux[OF this] assms show ?thesis by simp
qed

section \<open>The passes of the tokenizer\<close>

lemma startswith_append:
  "startswith (pre @ rest) s (length pre) = (take (length s) rest = s)"
  by (simp add: startswith_def)

lemma startswith_star_hd:
  assumes "startswith text (CHR ''*'' # s) j"
  shows "j < length text \<and> text ! j = CHR ''*''"
proof -
  from assms have t: "take (Suc (length s)) (drop j text) = CHR ''*'' # s"
    by (simp add: startswith_def)
  then have ne: "drop j text \<noteq> []" by auto
  then have j: "j < length text" by simp
  from t have "hd (drop j text) = CHR ''*''"
    by (cases "drop j text") auto
  with j show ?thesis by (simp add: hd_drop_conv_nth)
qed

lemma scan_normal_takeWhile:
  "j \<le> length tx \<Longrightarrow>
   scan_normal tx j = j + length (takeWhile (\<lambda>c. c \<noteq> CHR ''*'') (drop j tx))"
proof (induction tx j rule: scan_normal.induct)
  case (1 tx j)
  show ?case
  proof (cases "j < length tx \<and> \<not> startswith tx ''**'' j \<and> tx ! j \<noteq> CHR ''*''")
    case True
    then have d: "drop j tx = tx ! j # drop (Suc j) tx"
      by (simp add: Cons_nth_drop_Suc)
    from True have "scan_normal tx j = scan_normal tx (Suc j)"
      by (subst scan_normal.simps) simp
    also from True have "\<dots> = Suc j + length (takeWhile (\<lambda>c. c \<noteq> CHR ''*'') (drop (Suc j) tx))"
      by (intro "1.IH") simp_all
    finally show ?thesis using True d by simp
  next
    case False
    then have s: "scan_normal tx j = j"
      by (subst scan_normal.simps) (simp only: if_False)
    from False "1.prems" startswith_star_hd[of tx "''*''" j]
    have "j = length tx \<or> (j < length tx \<and> tx ! j = CHR ''*'')"
      by auto
    then have "takeWhile (\<lambda>c. c \<noteq> CHR ''*'') (drop j tx) = []"
    proof
      assume "j = length tx"
      then show ?thesis by simp
    next
      assume a: "j < length tx \<and> tx ! j = CHR ''*''"
      then have "drop j tx = tx ! j # drop (Suc j) tx"
        by (metis Cons_nth_drop_Suc)
      with a show ?thesis by simp
    qed
    with s show ?thesis by simp
  qed
qed

lemma takeWhile_star_free:
  assumes "CHR ''*'' \<notin> set a" "rest = [] \<or> hd rest = CHR ''*''"
  shows "takeWhile (\<lambda>c. c \<noteq> CHR ''*'') (a @ rest) = a"
proof -
  from assms(2) have "takeWhile (\<lambda>c. c \<noteq> CHR ''*'') rest = []"
    by (cases rest) auto
  with assms(1) show ?thesis by (induction a) auto
qed

lemma find_offset_after:
  "c \<notin> set b \<Longrightarrow> find_offset (c # s) (b @ (c # s) @ rest) = Some (length b)"
  by (induction b) auto

lemma tokenize_loop_end: "tokenize_loop text (length text) runs = Some runs"
  by (subst tokenize_loop.simps) simp

text \<open>
  One pass of the loop at the head of a normal run, of a bold span and of an italic
  span, for texts written as a concatenation.
\<close>

lemma tokenize_loop_normal_run:
  assumes "a \<noteq> []" "CHR ''*'' \<notin> set a" "rest = [] \<or> hd rest = CHR ''*''"
  shows "tokenize_loop (pre @ a @ rest) (length pre) runs
           = tokenize_loop (pre @ a @ rest) (length pre + length a) (runs @ [(a, Normal)])"
proof -
  let ?t = "pre @ a @ rest"
  from assms(1,2) have h: "hd a \<noteq> CHR ''*''" by (cases a) auto
  from assms(1) h have n2: "\<not> startswith ?t ''**'' (length pre)"
    by (cases a) (auto simp: startswith_append)
  from assms(1) h have n1: "\<not> startswith ?t ''*'' (length pre)"
    by (cases a) (auto simp: startswith_append)
  have sc: "scan_normal ?t (length pre) = length pre + length a"
    by (simp add: scan_normal_takeWhile takeWhile_star_free[OF assms(2,3)])
  have sl: "slice ?t (length pre) (length pre + length a) = a"
    by (simp add: slice_def)
  from assms(1) have lt: "length pre < length ?t" by simp
  show ?thesis
    by (subst tokenize_loop.simps) (simp only: lt n1 n2 sc sl if_True if_False option.case Let_def)
qed

lemma tokenize_loop_bold_run:
  assumes "CHR ''*'' \<notin> set b"
  shows "tokenize_loop (pre @ ''**'' @ b @ ''**'' @ rest) (length pre) runs
           = tokenize_loop (pre @ ''**'' @ b @ ''**'' @ rest) (length pre + length b + 4)
               (runs @ [(b, Bold)])"
proof -
  let ?t = "pre @ ''**'' @ b @ ''**'' @ rest"
  have lt: "length pre < length ?t" by simp
  have s2: "startswith ?t ''**'' (length pre)"
    by (simp add: startswith_append)
  have "find_offset ''**'' (b @ ''**'' @ rest) = Some (length b)"
    by (rule find_offset_after[OF assms])
  then have f: "str_find ?t ''**'' (length pre + 2) = Some (length pre + 2 + length b)"
    by (simp add: str_find_def)
  have sl: "slice ?t (length pre + 2) (length pre + 2 + length b) = b"
    by (simp add: slice_def)
  have e: "length pre + 2 + length b + 2 = length pre + length b + 4" by simp
  show ?thesis
    by (subst tokenize_loop.simps) (simp only: lt s2 f sl e if_True option.case)
qed

lemma tokenize_loop_italic_run:
  assumes "CHR ''*'' \<notin> set b" "b \<noteq> [] \<or> CHR ''*'' \<notin> set rest"
  shows "tokenize_loop (pre @ ''*'' @ b @ ''*'' @ rest) (length pre) runs
           = tokenize_loop (pre @ ''*'' @ b @ ''*'' @ rest) (length pre + length b + 2)
               (runs @ [(b, Italic)])"
proof -
  let ?t = "pre @ ''*'' @ b @ ''*'' @ rest"
  have lt: "length pre < length ?t" by simp
  have s1: "startswith ?t ''*'' (length pre)"
    by (simp add: startswith_append)
  have nb: "(if startswith ?t ''**'' (length pre) then str_find ?t ''**'' (length pre + 2)
             else None) = None"
  proof (cases "b = []")
    case True
    with assms(2) have "CHR ''*'' \<notin> set (drop (length pre + 2) ?t)" by simp
    then show ?thesis by (simp add: str_find_absent)
  next
    case False
    with assms(1) have "hd b \<noteq> CHR ''*''" by (cases b) auto
    with False have "\<not> startswith ?t ''**'' (length pre)"
      by (cases b) (auto simp: startswith_append)
    then show ?thesis by simp
  qed
  have "find_offset ''*'' (b @ ''*'' @ rest) = Some (length b)"
    by (rule find_offset_after[OF assms(1)])
  then have f: "str_find ?t ''*'' (length pre + 1) = Some (length pre + 1 + length b)"
    by (simp add: str_find_def)
  have sl: "slice ?t (length pre + 1) (length pre + 1 + length b) = b"
    by (simp add: slice_def)
  have e: "length pre + 1 + length b + 1 = length pre + length b + 2" by simp
  show ?thesis
    by (subst tokenize_loop.simps) (simp only: lt s1 nb f sl e if_True option.case)
qed


lemma tokenize_loop_head:
  assumes "CHR ''*'' \<notin> set a" "rest = [] \<or> hd rest = CHR ''*''"
  shows "tokenize_loop (a @ rest) 0 runs
           = tokenize_loop (a @ rest) (length a)
               (runs @ (if a = [] then [] else [(a, Normal)]))"
proof (cases "a = []")
  case True
  then show ?thesis by simp
next
  case False
  from tokenize_loop_normal_run[OF False assms, of "[]" runs] False
  show ?thesis by simp
qed

lemma tokenize_loop_tail:
  assumes "CHR ''*'' \<notin> set c"
  shows "tokenize_loop (pre @ c) (length pre) runs
           = Some (runs @ (if c = [] then [] else [(c, Normal)]))"
proof (cases "c = []")
  case True
  with tokenize_loop_end[of pre runs] show ?thesis by simp
next
  case False
  have "tokenize_loop (pre @ c @ []) (length pre) runs
          = tokenize_loop (pre @ c @ []) (length pre + length c) (runs @ [(c, Normal)])"
    by (rule tokenize_loop_normal_run[OF False assms]) simp
  also have "\<dots> = Some (runs @ [(c, Normal)])"
    using tokenize_loop_end[of "pre @ c" "runs @ [(c, Normal)]"] by simp
  finally show ?thesis using False by simp
qed

lemma tokenize_md_plain:
  assumes "CHR ''*'' \<notin> set a"
  shows "tokenize_md a = Some (if a = [] then [] else [(a, Normal)])"
  using tokenize_loop_tail[OF assms, of "[]" "[]"] by (simp add: tokenize_md_def)

lemma tokenize_md_bold:
  assumes "CHR ''*'' \<notin> set a" "CHR ''*'' \<notin> set b" "CHR ''*'' \<notin> set c"
  shows "tokenize_md (a @ ''**'' @ b @ ''**'' @ c)
           = Some ((if a = [] then [] else [(a, Normal)]) @ [(b, Bold)]
                   @ (if c = [] then [] else [(c, Normal)]))"
proof -
  let ?t = "a @ ''**'' @ b @ ''**'' @ c"
  let ?ra = "if a = [] then [] else [(a, Normal)]"
  have "tokenize_loop ?t 0 [] = tokenize_loop ?t (length a) ?ra"
    using tokenize_loop_head[OF assms(1), of "''**'' @ b @ ''**'' @ c" "[]"] by simp
  also have "\<dots> = tokenize_loop ?t (length a + length b + 4) (?ra @ [(b, Bold)])"
    by (rule tokenize_loop_bold_run[OF assms(2)])
  also have "\<dots> = Some ((?ra @ [(b, Bold)]) @ (if c = [] then [] else [(c, Normal)]))"
  proof -
    have t: "?t = (a @ ''**'' @ b @ ''**'') @ c" by simp
    have l: "length a + length b + 4 = length (a @ ''**'' @ b @ ''**'')" by simp
    show ?thesis unfolding t l by (rule tokenize_loop_tail[OF assms(3)])
  qed
  finally show ?thesis by (simp add: tokenize_md_def)
qed

lemma tokenize_md_italic:
  assumes "CHR ''*'' \<notin> set a" "CHR ''*'' \<notin> set b" "CHR ''*'' \<notin> set c"
  shows "tokenize_md (a @ ''*'' @ b @ ''*'' @ c)
           = Some ((if a = [] then [] else [(a, Normal)]) @ [(b, Italic)]
                   @ (if c = [] then [] else [(c, Normal)]))"
proof -
  let ?t = "a @ ''*'' @ b @ ''*'' @ c"
  let ?ra = "if a = [] then [] else [(a, Normal)]"
  have "tokenize_loop ?t 0 [] = tokenize_loop ?t (length a) ?ra"
    using tokenize_loop_head[OF assms(1), of "''*'' @ b @ ''*'' @ c" "[]"] by simp
  also have "\<dots> = tokenize_loop ?t (length a + length b + 2) (?ra @ [(b, Italic)])"
    by (rule tokenize_loop_italic_run[OF assms(2)]) (simp add: assms(3))
  also have "\<dots> = Some ((?ra @ [(b, Italic)]) @ (if c = [] then [] else [(c, Normal)]))"
  proof -
    have t: "?t = (a @ ''*'' @ b @ ''*'') @ c" by simp
    have l: "length a + length b + 2 = length (a @ ''*'' @ b @ ''*'')" by simp
    show ?thesis unfolding t l by (rule tokenize_loop_tail[OF assms(3)])
  qed
  finally show ?thesis by (simp add: tokenize_md_def)
qed

text \<open>A text with exactly one \<open>*\<close> is never tokenized.\<close>

lemma tokenize_md_single_star:
  assumes "CHR ''*'' \<notin> set a" "CHR ''*'' \<notin> set b"
  shows "tokenize_md (a @ ''*'' @ b) = None"
proof -
  let ?t = "a @ ''*'' @ b"
  let ?ra = "if a = [] then [] else [(a, Normal)]"
  have "tokenize_loop ?t 0 [] = tokenize_loop ?t (length a) ?ra"
    using tokenize_loop_head[OF assms(1), of "''*'' @ b" "[]"] by simp
  also have "\<dots> = None"
    by (rule tokenize_loop_stuck) (simp_all add: assms(2) nth_append)
  finally show ?thesis by (simp add: tokenize_md_def)
qed

text \<open>
  Claim C1. The claim: for every input string \<^verbatim>\<open>tokenize_md\<close> terminates, and
  \<^verbatim>\<open>"a *b"\<close> tokenizes to the single normal run \<^verbatim>\<open>"a *b"\<close>. The code: on
  \<^verbatim>\<open>"a *b"\<close> the first pass emits the normal run \<^verbatim>\<open>"a "\<close> and stops at the
  \<open>*\<close> at index 2; from there every pass appends an empty normal run and leaves the
  index where it is, so the call never returns.
\<close>

theorem tokenize_md_unterminated_never_returns:
  "tokenize_md ''a *b'' = None"
  using tokenize_md_single_star[of "''a ''" "''b''"] by simp

text \<open>
  Claim C6. \<^verbatim>\<open>"a **b** c"\<close> is tokenized to the runs \<^verbatim>\<open>("a ", normal)\<close>,
  \<^verbatim>\<open>("b", bold)\<close>, \<^verbatim>\<open>(" c", normal)\<close>. In general, for texts \<open>a\<close>, \<open>b\<close>,
  \<open>c\<close> without \<open>*\<close>: a span \<open>**b**\<close> becomes the bold run \<open>b\<close> and a span
  \<open>*b*\<close> the italic run \<open>b\<close>, without the markers; the text before and the text
  after become normal runs (no run when empty); a text without marker is one normal
  run. There is no nesting: the markers inside \<^verbatim>\<open>"**a *b* c**"\<close> stay in the bold
  run as they are. A bold span ends at the first closing marker:
  \<^verbatim>\<open>"**a** b **c**"\<close> has the bold runs \<open>a\<close> and \<open>c\<close>.
\<close>

theorem tokenize_md_spans:
  "tokenize_md ''a **b** c'' = Some [(''a '', Normal), (''b'', Bold), ('' c'', Normal)]
   \<and> tokenize_md ''**a *b* c**'' = Some [(''a *b* c'', Bold)]
   \<and> tokenize_md ''**a** b **c**'' = Some [(''a'', Bold), ('' b '', Normal), (''c'', Bold)]
   \<and> (CHR ''*'' \<notin> set a \<and> CHR ''*'' \<notin> set b \<and> CHR ''*'' \<notin> set c \<longrightarrow>
        tokenize_md (a @ ''**'' @ b @ ''**'' @ c)
          = Some ((if a = [] then [] else [(a, Normal)]) @ [(b, Bold)]
                  @ (if c = [] then [] else [(c, Normal)]))
        \<and> tokenize_md (a @ ''*'' @ b @ ''*'' @ c)
          = Some ((if a = [] then [] else [(a, Normal)]) @ [(b, Italic)]
                  @ (if c = [] then [] else [(c, Normal)]))
        \<and> tokenize_md a = Some (if a = [] then [] else [(a, Normal)]))"
proof (intro conjI impI)
  show "tokenize_md ''a **b** c'' = Some [(''a '', Normal), (''b'', Bold), ('' c'', Normal)]"
    by code_simp
  show "tokenize_md ''**a *b* c**'' = Some [(''a *b* c'', Bold)]"
    by code_simp
  show "tokenize_md ''**a** b **c**'' = Some [(''a'', Bold), ('' b '', Normal), (''c'', Bold)]"
    by code_simp
next
  assume s: "CHR ''*'' \<notin> set a \<and> CHR ''*'' \<notin> set b \<and> CHR ''*'' \<notin> set c"
  then have a: "CHR ''*'' \<notin> set a" and b: "CHR ''*'' \<notin> set b" and c: "CHR ''*'' \<notin> set c"
    by simp_all
  show "tokenize_md (a @ ''**'' @ b @ ''**'' @ c)
          = Some ((if a = [] then [] else [(a, Normal)]) @ [(b, Bold)]
                  @ (if c = [] then [] else [(c, Normal)]))"
    by (rule tokenize_md_bold[OF a b c])
  show "tokenize_md (a @ ''*'' @ b @ ''*'' @ c)
          = Some ((if a = [] then [] else [(a, Normal)]) @ [(b, Italic)]
                  @ (if c = [] then [] else [(c, Normal)]))"
    by (rule tokenize_md_italic[OF a b c])
  show "tokenize_md a = Some (if a = [] then [] else [(a, Normal)])"
    by (rule tokenize_md_plain[OF a])
qed

theorem tokenize_md_spans_witness:
  "CHR ''*'' \<notin> set ''say '' \<and> CHR ''*'' \<notin> set ''it'' \<and> CHR ''*'' \<notin> set '' now''
   \<and> tokenize_md ''say **it** now''
       = Some [(''say '', Normal), (''it'', Bold), ('' now'', Normal)]
   \<and> tokenize_md ''say *it* now''
       = Some [(''say '', Normal), (''it'', Italic), ('' now'', Normal)]
   \<and> tokenize_md ''say '' = Some [(''say '', Normal)]"
  using tokenize_md_spans [of "''say ''" "''it''" "'' now''"]
  by simp

section \<open>Timestamps\<close>

lemma split_on_nonempty: "split_on sep s \<noteq> []"
  by (induction s) (auto split: list.splits)

lemma split_on_chars: "p \<in> set (split_on sep s) \<Longrightarrow> set p \<subseteq> set s"
proof (induction s arbitrary: p)
  case Nil
  then show ?case by simp
next
  case (Cons c cs)
  show ?case
  proof (cases "c = sep")
    case True
    with Cons show ?thesis by auto
  next
    case False
    obtain q qs where q: "split_on sep cs = q # qs"
      using split_on_nonempty by (cases "split_on sep cs") auto
    with False Cons.prems have "p = c # q \<or> p \<in> set qs" by auto
    then show ?thesis
    proof
      assume "p = c # q"
      moreover have "set q \<subseteq> set cs" using Cons.IH[of q] q by simp
      ultimately show ?thesis by auto
    next
      assume "p \<in> set qs"
      then have "set p \<subseteq> set cs" using Cons.IH[of p] q by simp
      then show ?thesis by auto
    qed
  qed
qed

lemma component_ok:
  assumes "set p \<subseteq> A" "A \<inter> {CHR 0xB2, CHR 0xB3, CHR 0xB9} = {}"
  shows "\<exists>n. (if isdigit p then int_of_digits p else Inr 0) = Inr n"
proof (cases "isdigit p")
  case False
  then show ?thesis by simp
next
  case True
  have "list_all is_decimal_char p"
    unfolding list_all_iff
  proof
    fix c assume c: "c \<in> set p"
    with True have "is_digit_char c" by (simp add: isdigit_def list_all_iff)
    moreover from c assms have "c \<notin> set [CHR 0xB2, CHR 0xB3, CHR 0xB9]"
      by auto
    ultimately show "is_decimal_char c" by (simp add: is_digit_char_def)
  qed
  then show ?thesis by (simp add: int_of_digits_def)
qed

lemma set_replace_colon: "set (replace_colon s) \<subseteq> insert CHR ''_'' (set s)"
  by (auto simp: replace_colon_def)

text \<open>
  Without the three superscript digits in the input, \<^verbatim>\<open>parse_ts\<close> always returns
  a number.
\<close>

lemma parse_ts_total:
  assumes "set ts \<inter> {CHR 0xB2, CHR 0xB3, CHR 0xB9} = {}"
  shows "\<exists>n. parse_ts ts = Inr n"
proof -
  let ?r = "replace_colon ts"
  let ?parts = "split_on CHR ''_'' ?r"
  let ?A = "set (''0'' @ ?r)"
  have ns: "?A \<inter> {CHR 0xB2, CHR 0xB3, CHR 0xB9} = {}"
    using assms set_replace_colon[of ts] by auto
  obtain q qs where q: "?parts = q # qs"
    using split_on_nonempty by (cases ?parts) auto
  have all: "\<And>p. p \<in> set (?parts @ [''0'', ''0'']) \<Longrightarrow> set p \<subseteq> ?A"
    using split_on_chars[of _ "CHR ''_''" ?r] by auto
  obtain m s where t: "take 2 (?parts @ [''0'', ''0'']) = [m, s]"
    using q by (cases qs) (auto simp: numeral_2_eq_2)
  have "set [m, s] \<subseteq> set (?parts @ [''0'', ''0''])"
    using set_take_subset[of 2 "?parts @ [''0'', ''0'']"] unfolding t .
  then have "m \<in> set (?parts @ [''0'', ''0''])" "s \<in> set (?parts @ [''0'', ''0''])"
    by simp_all
  then have "set m \<subseteq> ?A" "set s \<subseteq> ?A"
    using all by blast+
  from component_ok[OF this(1) ns] component_ok[OF this(2) ns]
  obtain a b where "(if isdigit m then int_of_digits m else Inr 0) = Inr a"
    "(if isdigit s then int_of_digits s else Inr 0) = Inr b" by blast
  then show ?thesis
    unfolding parse_ts_def t by simp
qed

lemma parse_ts_examples:
  "parse_ts ''1_30'' = Inr 90"
  "parse_ts ''1:30'' = Inr 90"
  "parse_ts ''90'' = Inr 5400"
  "parse_ts ''_45'' = Inr 45"
  "parse_ts ''abc'' = Inr 0"
  by code_simp+

text \<open>
  Claim C5. The claim: \<^verbatim>\<open>parse_ts\<close> never fails, for every input string; a
  component that is not numeric counts as 0. The code: the test is
  \<^verbatim>\<open>m.isdigit()\<close>, which also holds for the superscript digits, and
  \<^verbatim>\<open>int(m)\<close> rejects those. On the one-character string U+00B2 the call raises
  \<^verbatim>\<open>ValueError\<close>. (The four examples of the claim are as it says:
  \<open>parse_ts_examples\<close>.)
\<close>

theorem parse_ts_superscript_digit_raises:
  "parse_ts [CHR 0xB2] = Inl (ValueError ''invalid literal for int() with base 10'')"
  by code_simp

section \<open>Durations\<close>

text \<open>
  Claim C3. For every list of timestamps \<open>ts\<close> (ascending or not) and every audio
  length \<open>L\<close>, \<^verbatim>\<open>durations_from_timestamps\<close> returns a list as long as \<open>ts\<close>;
  before the last index the duration is the larger of \<^verbatim>\<open>MIN_SLIDE_SEC\<close> and the
  gap to the next timestamp, at the last index the larger of \<^verbatim>\<open>MIN_SLIDE_SEC\<close>
  and \<open>L\<close> minus the last timestamp; every duration is at least
  \<^verbatim>\<open>MIN_SLIDE_SEC\<close>, which is 1. The two examples of the claim are part of the
  statement.
\<close>

theorem durations_from_timestamps_values:
  "length (durations_from_timestamps ts L) = length ts
   \<and> (\<forall>i. i + 1 < length ts \<longrightarrow>
          durations_from_timestamps ts L ! i = max MIN_SLIDE_SEC (ts ! (i + 1) - ts ! i))
   \<and> (ts \<noteq> [] \<longrightarrow>
          durations_from_timestamps ts L ! (length ts - 1)
            = max MIN_SLIDE_SEC (L - ts ! (length ts - 1)))
   \<and> (\<forall>d \<in> set (durations_from_timestamps ts L). MIN_SLIDE_SEC \<le> d)
   \<and> durations_from_timestamps [0, 5, 12] 20 = [5, 7, 8]
   \<and> durations_from_timestamps [0, 5] 4 = [5, MIN_SLIDE_SEC]
   \<and> MIN_SLIDE_SEC = 1"
proof (intro conjI allI impI ballI)
  show "length (durations_from_timestamps ts L) = length ts"
    by (simp add: durations_from_timestamps_def)
next
  fix i assume "i + 1 < length ts"
  then show "durations_from_timestamps ts L ! i = max MIN_SLIDE_SEC (ts ! (i + 1) - ts ! i)"
    by (simp add: durations_from_timestamps_def Let_def)
next
  assume "ts \<noteq> []"
  then have "length ts - 1 < length ts" by (cases ts) auto
  then show "durations_from_timestamps ts L ! (length ts - 1)
            = max MIN_SLIDE_SEC (L - ts ! (length ts - 1))"
    by (simp add: durations_from_timestamps_def Let_def)
next
  fix d assume "d \<in> set (durations_from_timestamps ts L)"
  then show "MIN_SLIDE_SEC \<le> d"
    by (auto simp: durations_from_timestamps_def Let_def)
next
  show "durations_from_timestamps [0, 5, 12] 20 = [5, 7, 8]"
    by (simp add: durations_from_timestamps_def MIN_SLIDE_SEC_def upt_rec)
next
  show "durations_from_timestamps [0, 5] 4 = [5, MIN_SLIDE_SEC]"
    by (simp add: durations_from_timestamps_def MIN_SLIDE_SEC_def upt_rec)
next
  show "MIN_SLIDE_SEC = 1" by (simp add: MIN_SLIDE_SEC_def)
qed

theorem durations_from_timestamps_values_witness:
  "sorted [0, 5, 12 :: real]
   \<and> length (durations_from_timestamps [0, 5, 12] 20) = 3
   \<and> durations_from_timestamps [0, 5, 12] 20 ! 0 = 5
   \<and> durations_from_timestamps [0, 5, 12] 20 ! 1 = 7
   \<and> durations_from_timestamps [0, 5, 12] 20 ! 2 = 8
   \<and> 1 \<le> durations_from_timestamps [0, 5, 12] 20 ! 2"
  using durations_from_timestamps_values [of "[0, 5, 12]" 20]
  by simp

section \<open>The layout loop at its exit\<close>
















section \<open>Termination of the layout loop\<close>

lemma wrap_blocks_defined:
  assumes "list_all (\<lambda>raw. tokenize_md raw \<noteq> None) raws"
  shows "wrap_blocks env f_txt iw lh_txt raws acc \<noteq> None"
  using assms
proof (induction raws arbitrary: acc)
  case Nil
  then show ?case by simp
next
  case (Cons raw raws)
  obtain blocks text_h where acc: "acc = (blocks, text_h)" by (cases acc)
  from Cons.prems obtain runs where "tokenize_md raw = Some runs" by auto
  with Cons show ?case unfolding acc
    by (cases "wrap_rich env runs f_txt iw") simp_all
qed

lemma layout_pass_defined:
  assumes "tokenize_md explanation \<noteq> None"
    and "list_all (\<lambda>raw. tokenize_md raw \<noteq> None) (take MAX_LINES raw_lines)"
  shows "layout_pass env iw ih explanation raw_lines expl_size lines_size \<noteq> None"
proof -
  from assms(1) obtain runs where r: "tokenize_md explanation = Some runs" by auto
  let ?lh = "if font_size env (f_normal (mkfonts env lines_size)) \<noteq> None
             then int_scaled lines_size 125 100 else 20"
  from wrap_blocks_defined[OF assms(2)] obtain b where
    b: "wrap_blocks env (mkfonts env lines_size) iw ?lh (take MAX_LINES raw_lines) ([], 0)
          = Some b"
    by blast
  show ?thesis
    unfolding layout_pass_def Let_def r b
    by (simp split: sum.splits prod.splits)
qed

lemma int_scaled_94_less: "12 < x \<Longrightarrow> int_scaled x 94 100 < x"
  unfolding int_scaled_def by simp

lemma int_scaled_94_small: "x \<le> 12 \<Longrightarrow> int_scaled x 94 100 \<le> 12"
  unfolding int_scaled_def by (cases "0 \<le> x") simp_all

lemma shrink_measure:
  assumes "\<not> (e \<le> min_size \<and> l \<le> min_size)"
  shows "nat (max min_size (int_scaled e 94 100) - 12) + nat (max min_size (int_scaled l 94 100) - 12)
           < nat (e - 12) + nat (l - 12)"
proof -
  have a: "nat (max min_size (int_scaled x 94 100) - 12) \<le> nat (x - 12)" for x
    using int_scaled_94_less[of x] int_scaled_94_small[of x]
    by (cases "12 < x") (auto simp: min_size_def max_def)
  have b: "12 < x \<Longrightarrow> nat (max min_size (int_scaled x 94 100) - 12) < nat (x - 12)" for x
    using int_scaled_94_less[of x] by (auto simp: min_size_def max_def)
  from assms have "12 < e \<or> 12 < l" by (auto simp: min_size_def)
  then show ?thesis
  proof
    assume "12 < e"
    from b[OF this] a[of l] show ?thesis by linarith
  next
    assume "12 < l"
    from b[OF this] a[of e] show ?thesis by linarith
  qed
qed

text \<open>
  When the tokenizer returns on the explanation and on the lines, the loop returns:
  each pass that does not stop makes the sum of the distances of the two sizes to
  the floor smaller.
\<close>

lemma layout_loop_terminates:
  assumes "tokenize_md explanation \<noteq> None"
    and "list_all (\<lambda>raw. tokenize_md raw \<noteq> None) (take MAX_LINES raw_lines)"
  shows "\<exists>res. layout_loop env iw ih explanation raw_lines expl_size lines_size = Some res"
proof (induction "nat (expl_size - 12) + nat (lines_size - 12)"
        arbitrary: expl_size lines_size rule: less_induct)
  case less
  from layout_pass_defined[OF assms] obtain p where
    p: "layout_pass env iw ih explanation raw_lines expl_size lines_size = Some p"
    by blast
  show ?case
  proof (cases p)
    case (Inl e)
    with p show ?thesis by (subst layout_loop.simps) simp
  next
    case (Inr rt)
    obtain result total_h where rt: "rt = (result, total_h)" by (cases rt)
    show ?thesis
    proof (cases "total_h \<le> ih \<or> (expl_size \<le> min_size \<and> lines_size \<le> min_size)")
      case True
      with p Inr rt show ?thesis by (subst layout_loop.simps) simp
    next
      case False
      then have "\<not> (expl_size \<le> min_size \<and> lines_size \<le> min_size)" by simp
      from less[OF shrink_measure[OF this]] obtain res where
        "layout_loop env iw ih explanation raw_lines
           (max min_size (int_scaled expl_size 94 100))
           (max min_size (int_scaled lines_size 94 100)) = Some res"
        by blast
      with p Inr rt False show ?thesis by (subst layout_loop.simps) simp
    qed
  qed
qed

text \<open>
  A pass whose content fits, or whose sizes are both at the floor, is the last one;
  the sizes of the result are the sizes of that pass (\<open>layout_pass_result\<close>).
\<close>

lemma layout_loop_stops_when_it_fits:
  assumes "layout_pass env iw ih explanation raw_lines expl_size lines_size
             = Some (Inr (result, total_h))"
    and "total_h \<le> ih \<or> (expl_size \<le> min_size \<and> lines_size \<le> min_size)"
  shows "layout_loop env iw ih explanation raw_lines expl_size lines_size = Some (Inr result)"
  using assms by (subst layout_loop.simps) auto

lemma layout_pass_unterminated:
  "tokenize_md explanation = None \<Longrightarrow>
   layout_pass env iw ih explanation raw_lines expl_size lines_size = None"
  by (simp add: layout_pass_def Let_def)

text \<open>
  Claim C2. The claim: for every explanation string, lines, box and base size the
  loop terminates. The code: the first statement of each pass tokenizes the
  explanation, and on the explanation \<^verbatim>\<open>"a *b"\<close> the tokenizer never returns, so
  neither does the layout, whatever the box and the sizes are.
\<close>

theorem layout_right_column_unterminated_marker_never_returns:
  "layout_right_column env iw ih ''a *b'' raw_lines base_size = None"
proof -
  have "tokenize_md ''a *b'' = None"
    using tokenize_md_single_star[of "''a ''" "''b''"] by simp
  then have "layout_pass env iw ih ''a *b'' raw_lines e l = None" for e l
    by (rule layout_pass_unterminated)
  then show ?thesis
    unfolding layout_right_column_def by (subst layout_loop.simps) simp
qed

section \<open>Layer durations of the animated composer\<close>

lemma callout_clip_positive: "0 < clip_duration (callout_clip d)"
  by (simp add: callout_clip_def max_def)

lemma text_clip_positive: "0 < clip_duration (text_clip d i)"
  by (simp add: text_clip_def Let_def max_def)

lemma text_clip_start: "0 < clip_start (text_clip d i)"
  by (simp add: text_clip_def Let_def TEXT_START_DELAY_def TEXT_STAGGER_def add_pos_nonneg)

lemma build_slide_clip_layers:
  assumes "build_slide_clip env sl d base = Some (Inr layers)"
  shows "\<exists>img n. layers = \<lparr>clip_start = 0, clip_duration = d\<rparr> # img @ callout_clip d
                            # map (text_clip d) [0..<n]
           \<and> (img = [] \<or> img = [\<lparr>clip_start = 0, clip_duration = d\<rparr>])"
proof -
  let ?base = "\<lparr>clip_start = 0, clip_duration = d\<rparr>"
  let ?img = "if image_isfile env (s_index sl + 1) then [?base] else []"
  let ?lay = "layout_right_column env (RIGHT_W - 2 * PADDING) (H - 2 * PADDING)
                (s_explanation sl)
                (take MAX_LINES (drop 1 (split_on CHR 0x0A (s_slide_content sl)))) base"
  from assms obtain right where r: "?lay = Some (Inr right)"
    by (auto simp: build_slide_clip_def Let_def split: option.splits sum.splits)
  with assms have
    "layers = [?base] @ ?img @ [callout_clip d]
                @ map (text_clip d) [0..<length (out_blocks right)]"
    by (simp add: build_slide_clip_def Let_def)
  then have "layers = ?base # ?img @ callout_clip d
                # map (text_clip d) [0..<length (out_blocks right)]
             \<and> (?img = [] \<or> ?img = [?base])"
    by simp
  then show ?thesis by blast
qed

text \<open>
  Claim C8. For every slide duration \<open>d\<close>, the clip of the callout layer lasts
  \<open>max(0.1, d - CALLOUT_DELAY)\<close> and the clip of text block \<open>i\<close> lasts
  \<open>max(0.1, d - (TEXT_START_DELAY + i * TEXT_STAGGER))\<close>; both are positive. When
  \<^verbatim>\<open>build_slide_clip\<close> returns, its layers are the base layer, the image layer if
  the image exists, the callout layer and one layer for each text block, and every
  layer that starts after time 0 (the callout and the text blocks do) has a positive
  duration, whatever \<open>d\<close> is.
\<close>

theorem build_slide_clip_layer_durations:
  "clip_duration (callout_clip d) = max (1 / 10) (d - CALLOUT_DELAY)
   \<and> clip_duration (text_clip d i)
       = max (1 / 10) (d - (TEXT_START_DELAY + real i * TEXT_STAGGER))
   \<and> 0 < clip_duration (callout_clip d)
   \<and> 0 < clip_duration (text_clip d i)
   \<and> 0 < clip_start (callout_clip d)
   \<and> 0 < clip_start (text_clip d i)
   \<and> (build_slide_clip env sl d base = Some (Inr layers) \<longrightarrow>
        (\<exists>img n. layers = \<lparr>clip_start = 0, clip_duration = d\<rparr> # img @ callout_clip d
                            # map (text_clip d) [0..<n]
           \<and> (img = [] \<or> img = [\<lparr>clip_start = 0, clip_duration = d\<rparr>]))
        \<and> (\<forall>l \<in> set layers. 0 < clip_start l \<longrightarrow> 0 < clip_duration l))"
proof (intro conjI impI)
  show "clip_duration (callout_clip d) = max (1 / 10) (d - CALLOUT_DELAY)"
    by (simp add: callout_clip_def)
  show "clip_duration (text_clip d i)
       = max (1 / 10) (d - (TEXT_START_DELAY + real i * TEXT_STAGGER))"
    by (simp add: text_clip_def Let_def)
  show "0 < clip_duration (callout_clip d)" by (rule callout_clip_positive)
  show "0 < clip_duration (text_clip d i)" by (rule text_clip_positive)
  show "0 < clip_start (callout_clip d)" by (simp add: callout_clip_def CALLOUT_DELAY_def)
  show "0 < clip_start (text_clip d i)" by (rule text_clip_start)
next
  assume b: "build_slide_clip env sl d base = Some (Inr layers)"
  from build_slide_clip_layers[OF b]
  show "\<exists>img n. layers = \<lparr>clip_start = 0, clip_duration = d\<rparr> # img @ callout_clip d
                            # map (text_clip d) [0..<n]
           \<and> (img = [] \<or> img = [\<lparr>clip_start = 0, clip_duration = d\<rparr>])" .
  from build_slide_clip_layers[OF b]
  show "\<forall>l \<in> set layers. 0 < clip_start l \<longrightarrow> 0 < clip_duration l"
    using callout_clip_positive text_clip_positive by auto
qed

theorem build_slide_clip_layer_durations_witness:
  "build_slide_clip sample_env
     \<lparr>s_index = 0, s_timestamp = 0, s_explanation = ''Hello **world**'',
      s_slide_content = ''Title\<newline>Line one\<newline>Line two''\<rparr> 3 20
   = Some (Inr [\<lparr>clip_start = 0, clip_duration = 3\<rparr>,
        \<lparr>clip_start = 1 / 5, clip_duration = 14 / 5\<rparr>,
        \<lparr>clip_start = 7 / 2, clip_duration = 1 / 10\<rparr>,
        \<lparr>clip_start = 49 / 10, clip_duration = 1 / 10\<rparr>])
   \<and> clip_duration (text_clip 3 1) = 1 / 10
   \<and> 0 < clip_duration (text_clip 3 1)
   \<and> list_all (\<lambda>l. 0 < clip_duration l)
        [\<lparr>clip_start = 1 / 5, clip_duration = 14 / 5\<rparr>,
         \<lparr>clip_start = 7 / 2, clip_duration = 1 / 10\<rparr>,
         \<lparr>clip_start = 49 / 10, clip_duration = 1 / 10 :: real\<rparr>]"
proof -
  let ?sl = "\<lparr>s_index = 0, s_timestamp = 0, s_explanation = ''Hello **world**'',
      s_slide_content = ''Title\<newline>Line one\<newline>Line two''\<rparr>"
  let ?layers = "[\<lparr>clip_start = 0, clip_duration = 3\<rparr>,
        \<lparr>clip_start = 1 / 5, clip_duration = 14 / 5\<rparr>,
        \<lparr>clip_start = 7 / 2, clip_duration = 1 / 10\<rparr>,
        \<lparr>clip_start = 49 / 10, clip_duration = 1 / 10 :: real\<rparr>]"
  have b: "build_slide_clip sample_env ?sl 3 20 = Some (Inr ?layers)"
    by code_simp
  have t: "max (1 / 10) (3 - (TEXT_START_DELAY + real 1 * TEXT_STAGGER)) = 1 / 10"
    by (simp add: TEXT_START_DELAY_def TEXT_STAGGER_def)
  from build_slide_clip_layer_durations
         [where d = 3 and i = 1 and env = sample_env and sl = ?sl and base = 20
            and layers = ?layers]
       b t
  show ?thesis by simp
qed

section \<open>The first timestamp and the audio length\<close>

lemma make_slides_length: "make_slides i es = Inr ss \<Longrightarrow> length ss = length es"
  by (induction es arbitrary: i ss) (auto split: sum.splits)

lemma sort_key_eq_Nil: "sort_key f xs = [] \<longleftrightarrow> xs = []"
  using length_sort[of f xs] by (metis length_0_conv)

lemma first_of_sorted_is_Min:
  fixes f :: "'a \<Rightarrow> int"
  assumes "xs \<noteq> []"
  shows "map f (sort_key f xs) ! 0 = Min (f ` set xs)"
proof -
  let ?ys = "map f (sort_key f xs)"
  have s: "sorted ?ys" by simp
  have st: "set ?ys = f ` set xs" by simp
  from assms have ne: "?ys \<noteq> []" by (simp add: sort_key_eq_Nil)
  then obtain y ys where ys: "?ys = y # ys" by (cases ?ys) auto
  have "Min (f ` set xs) = y"
  proof (rule Min_eqI)
    show "finite (f ` set xs)" by simp
    show "\<And>z. z \<in> f ` set xs \<Longrightarrow> y \<le> z"
      using s st ys by (metis set_ConsD sorted_simps(2) order_refl)
    show "y \<in> f ` set xs" using st ys by (metis list.set_intros(1))
  qed
  then show ?thesis using ys by simp
qed

text \<open>
  Claim C9. In the animated variant, when the entries are not empty, their
  timestamps parse, and the smallest timestamp is greater than the audio length,
  the run ends with the error "First slide timestamp is beyond the audio duration."
  No slide is rendered: the result holds for every environment and every entry
  text, and carries no clip.
\<close>

theorem main_animated_first_timestamp_beyond_audio:
  assumes "entries \<noteq> []"
    and "make_slides 0 entries = Inr slides"
    and "alen < real_of_int (Min (s_timestamp ` set slides))"
  shows "main_animated env entries alen font_size_arg
           = Some (Inl (ValueError ''First slide timestamp is beyond the audio duration.''))"
proof -
  from assms(1,2) have ne: "slides \<noteq> []"
    using make_slides_length by fastforce
  have "map s_timestamp (sort_key s_timestamp slides) ! 0 = Min (s_timestamp ` set slides)"
    by (rule first_of_sorted_is_Min[OF ne])
  with assms ne show ?thesis
    by (simp add: main_animated_def Let_def sort_key_eq_Nil)
qed

theorem main_animated_first_timestamp_beyond_audio_witness:
  "[\<lparr>e_timestamp = Some ''0_10'', e_explanation = ''a *b'', e_slide_content = ''T''\<rparr>,
    \<lparr>e_timestamp = Some ''0:07'', e_explanation = ''x'', e_slide_content = ''U''\<rparr>] \<noteq> []
   \<and> make_slides 0
       [\<lparr>e_timestamp = Some ''0_10'', e_explanation = ''a *b'', e_slide_content = ''T''\<rparr>,
        \<lparr>e_timestamp = Some ''0:07'', e_explanation = ''x'', e_slide_content = ''U''\<rparr>]
     = Inr [\<lparr>s_index = 0, s_timestamp = 10, s_explanation = ''a *b'', s_slide_content = ''T''\<rparr>,
            \<lparr>s_index = 1, s_timestamp = 7, s_explanation = ''x'', s_slide_content = ''U''\<rparr>]
   \<and> (5 :: real) < real_of_int 7
   \<and> main_animated sample_env
       [\<lparr>e_timestamp = Some ''0_10'', e_explanation = ''a *b'', e_slide_content = ''T''\<rparr>,
        \<lparr>e_timestamp = Some ''0:07'', e_explanation = ''x'', e_slide_content = ''U''\<rparr>] 5 20
     = Some (Inl (ValueError ''First slide timestamp is beyond the audio duration.''))"
proof -
  let ?es = "[\<lparr>e_timestamp = Some ''0_10'', e_explanation = ''a *b'', e_slide_content = ''T''\<rparr>,
    \<lparr>e_timestamp = Some ''0:07'', e_explanation = ''x'', e_slide_content = ''U''\<rparr>]"
  let ?ss = "[\<lparr>s_index = 0, s_timestamp = 10, s_explanation = ''a *b'', s_slide_content = ''T''\<rparr>,
            \<lparr>s_index = 1, s_timestamp = 7, s_explanation = ''x'', s_slide_content = ''U''\<rparr>]"
  have ne: "?es \<noteq> []" by simp
  have ms: "make_slides 0 ?es = Inr ?ss" by code_simp
  have lt: "(5 :: real) < real_of_int (Min (s_timestamp ` set ?ss))" by simp
  from main_animated_first_timestamp_beyond_audio[OF ne ms lt, of sample_env 20] ne ms
  show ?thesis by simp
qed

section \<open>The word wrapper keeps every token\<close>

lemma wrap_tokens_concat:
  "wrap_tokens env fs max_w st toks (lines, cur, cur_w) = Inr (lines', cur', cur_w') \<Longrightarrow>
   concat lines' @ cur' = concat lines @ cur @ map (\<lambda>tok. (tok, st)) toks"
proof (induction toks arbitrary: lines cur cur_w)
  case Nil
  then show ?case by simp
next
  case (Cons tok toks)
  from Cons.prems obtain w where w: "seg_w env fs tok st = Inr w"
    by (auto split: sum.splits)
  show ?case
  proof (cases "cur_w + w \<le> real_of_int max_w \<or> (isspace tok \<and> cur = [])")
    case True
    with Cons.prems w have
      "wrap_tokens env fs max_w st toks (lines, cur @ [(tok, st)], cur_w + w)
         = Inr (lines', cur', cur_w')"
      by simp
    from Cons.IH[OF this] show ?thesis by simp
  next
    case False
    with Cons.prems w have
      "wrap_tokens env fs max_w st toks (lines @ [cur], [(tok, st)], w)
         = Inr (lines', cur', cur_w')"
      by simp
    from Cons.IH[OF this] show ?thesis by simp
  qed
qed

lemma wrap_runs_concat:
  "wrap_runs env fs max_w runs (lines, cur, cur_w) = Inr (lines', cur', cur_w') \<Longrightarrow>
   concat lines' @ cur'
     = concat lines @ cur
         @ concat (map (\<lambda>(tx, st). map (\<lambda>tok. (tok, st)) (re_tokens tx)) runs)"
proof (induction runs arbitrary: lines cur cur_w)
  case Nil
  then show ?case by simp
next
  case (Cons r runs)
  obtain tx st where r: "r = (tx, st)" by (cases r)
  from Cons.prems r obtain l1 c1 w1 where
    a: "wrap_tokens env fs max_w st (re_tokens tx) (lines, cur, cur_w) = Inr (l1, c1, w1)"
    and b: "wrap_runs env fs max_w runs (l1, c1, w1) = Inr (lines', cur', cur_w')"
    by (auto split: sum.splits)
  from wrap_tokens_concat[OF a] Cons.IH[OF b] r show ?case by simp
qed

text \<open>
  Claim C10. For every run sequence and every maximum width, when \<^verbatim>\<open>wrap_rich\<close>
  returns, the \<^verbatim>\<open>(token, style)\<close> pairs of its lines, joined in order, are the
  tokens of the regular expression \<^verbatim>\<open>\S+|\s+\<close> of the run texts, in order, each
  with the style of its run: no token is dropped, repeated, split or moved, whether
  it fits the width or not.
\<close>

theorem wrap_rich_preserves_tokens:
  assumes "wrap_rich env runs fs max_w = Inr lines"
  shows "concat lines = concat (map (\<lambda>(tx, st). map (\<lambda>tok. (tok, st)) (re_tokens tx)) runs)"
proof -
  from assms obtain ls cur cur_w where
    a: "wrap_runs env fs max_w runs ([], [], 0) = Inr (ls, cur, cur_w)"
    and b: "lines = (if cur \<noteq> [] then ls @ [cur] else ls)"
    by (auto simp: wrap_rich_def split: sum.splits)
  from wrap_runs_concat[OF a] b show ?thesis by (cases "cur = []") simp_all
qed

theorem wrap_rich_preserves_tokens_witness:
  "wrap_rich sample_env [(''Hello  big world'', Normal), (''!'', Bold)] (mkfonts sample_env 20) 100
     = Inr [[(''Hello'', Normal), (''  '', Normal), (''big'', Normal)],
            [('' '', Normal), (''world'', Normal), (''!'', Bold)]]
   \<and> concat [[(''Hello'', Normal), (''  '', Normal), (''big'', Normal)],
              [('' '', Normal), (''world'', Normal), (''!'', Bold)]]
     = concat (map (\<lambda>(tx, st). map (\<lambda>tok. (tok, st)) (re_tokens tx))
                 [(''Hello  big world'', Normal), (''!'', Bold)])"
proof -
  have w: "wrap_rich sample_env [(''Hello  big world'', Normal), (''!'', Bold)]
             (mkfonts sample_env 20) 100
     = Inr [[(''Hello'', Normal), (''  '', Normal), (''big'', Normal)],
            [('' '', Normal), (''world'', Normal), (''!'', Bold)]]"
    by code_simp
  from wrap_rich_preserves_tokens[OF w] w show ?thesis by simp
qed

text \<open>
  The wrapper returns whenever the width of every token can be taken, and the
  tokens of a text are a partition of it.
\<close>

lemma wrap_tokens_returns:
  assumes "\<And>t. \<exists>w. seg_w env fs t st = Inr w"
  shows "\<exists>s'. wrap_tokens env fs max_w st toks s = Inr s'"
proof (induction toks arbitrary: s)
  case Nil
  show ?case by (cases s) auto
next
  case (Cons tok toks)
  obtain lines cur cur_w where s: "s = (lines, cur, cur_w)" by (cases s) auto
  from assms obtain w where w: "seg_w env fs tok st = Inr w" by blast
  show ?case unfolding s using w Cons.IH by simp
qed

lemma wrap_runs_returns:
  assumes "\<And>t st. \<exists>w. seg_w env fs t st = Inr w"
  shows "\<exists>s'. wrap_runs env fs max_w runs s = Inr s'"
proof (induction runs arbitrary: s)
  case Nil
  show ?case by (cases s) auto
next
  case (Cons r runs)
  obtain tx st where r: "r = (tx, st)" by (cases r)
  from wrap_tokens_returns[of env fs st max_w "re_tokens tx" s] assms
  obtain s1 where "wrap_tokens env fs max_w st (re_tokens tx) s = Inr s1" by blast
  with Cons.IH[of s1] r show ?case by simp
qed

lemma wrap_rich_returns:
  assumes "\<And>t st. \<exists>w. seg_w env fs t st = Inr w"
  shows "\<exists>lines. wrap_rich env runs fs max_w = Inr lines"
proof -
  from wrap_runs_returns[OF assms, of max_w runs "([], [], 0)"]
  obtain s' where "wrap_runs env fs max_w runs ([], [], 0) = Inr s'" by blast
  then show ?thesis by (cases s') (auto simp: wrap_rich_def)
qed

lemma concat_re_tokens: "concat (re_tokens s) = s"
  by (induction s rule: re_tokens.induct) (simp_all del: takeWhile.simps dropWhile.simps)

section \<open>The word wrapper on empty input\<close>

lemma tokenize_md_empty: "tokenize_md [] = Some []"
  by (simp add: tokenize_md_def tokenize_loop.simps)

lemma wrap_runs_no_tokens:
  "list_all (\<lambda>r. fst r = []) runs \<Longrightarrow> wrap_runs env fs max_w runs s = Inr s"
  by (induction runs) auto

text \<open>
  Claim C7, as stated: for empty input \<^verbatim>\<open>wrap_rich\<close> returns at least one line.
  It does not: the last statement is \<^verbatim>\<open>if cur: lines.append(cur)\<close>, and with no
  token \<^verbatim>\<open>cur\<close> is empty, so the result is the empty list.
\<close>

theorem wrap_rich_empty_input_no_line_counterexample:
  "wrap_rich sample_env [] (mkfonts sample_env 20) 522 = Inr []
   \<and> wrap_rich sample_env [('''', Italic)] (mkfonts sample_env 20) 522 = Inr []
   \<and> \<not> 1 \<le> length (projr (wrap_rich sample_env [] (mkfonts sample_env 20) 522))"
  by (simp add: wrap_rich_def)

text \<open>
  Claim C7, amended. For empty input (no run, or runs whose texts are empty)
  \<^verbatim>\<open>wrap_rich\<close> returns the empty list of lines. The layout counts
  \<^verbatim>\<open>max(1, len(lines))\<close> lines: for an empty explanation the callout is one line
  high, \<^verbatim>\<open>lh_expl * 1 + 16\<close>.
\<close>

theorem wrap_rich_empty_input:
  assumes "list_all (\<lambda>r. fst r = []) runs"
  shows "wrap_rich env runs fs max_w = Inr []
         \<and> (layout_pass env iw ih [] raw_lines expl_size lines_size = Some (Inr (result, total_h))
              \<longrightarrow> out_expl_wrapped result = []
                  \<and> out_expl_h result = out_lh_expl result * 1 + 16)"
proof
  show "wrap_rich env runs fs max_w = Inr []"
    by (simp add: wrap_rich_def wrap_runs_no_tokens[OF assms])
next
  have w: "wrap_rich env [] (mkfonts env expl_size) (iw - 20) = Inr []"
    by (simp add: wrap_rich_def)
  show "layout_pass env iw ih [] raw_lines expl_size lines_size = Some (Inr (result, total_h))
              \<longrightarrow> out_expl_wrapped result = []
                  \<and> out_expl_h result = out_lh_expl result * 1 + 16"
    by (auto simp: layout_pass_def Let_def tokenize_md_empty w
             split: option.splits sum.splits)
qed


theorem wrap_rich_empty_input_witness:
  "list_all (\<lambda>r. fst r = []) [('''', Italic), ('''', Normal)]
   \<and> wrap_rich sample_env [('''', Italic), ('''', Normal)] (mkfonts sample_env 20) 522 = Inr []
   \<and> layout_pass sample_env 542 452 [] [] 20 18
       = Some (Inr (\<lparr>out_expl_size = 20, out_lines_size = 18,
                     out_f_expl = mkfonts sample_env 20, out_f_txt = mkfonts sample_env 18,
                     out_lh_expl = 26, out_lh_txt = 22, out_expl_wrapped = [],
                     out_blocks = [], out_expl_h = 42, out_start_y = 200\<rparr>, 52))
   \<and> (42 :: int) = 26 * 1 + 16"
proof -
  let ?r = "\<lparr>out_expl_size = 20, out_lines_size = 18,
                     out_f_expl = mkfonts sample_env 20, out_f_txt = mkfonts sample_env 18,
                     out_lh_expl = 26, out_lh_txt = 22, out_expl_wrapped = [],
                     out_blocks = [], out_expl_h = 42, out_start_y = 200\<rparr>"
  have a: "list_all (\<lambda>r. fst r = []) [('''', Italic), ('''', Normal)]" by simp
  have p: "layout_pass sample_env 542 452 [] [] 20 18 = Some (Inr (?r, 52))"
    by code_simp
  from wrap_rich_empty_input[OF a, of sample_env "mkfonts sample_env 20" 522 542 452 "[]" 20 18 ?r 52]
    a p
  show ?thesis by simp
qed

end
